theory Spec2Isabelle
  imports Complex_Main "HOL-Library.Word"
begin

section \<open>Values of type double\<close>

text \<open>
  The balances of \<^verbatim>\<open>main.cpp\<close> are C++ \<^verbatim>\<open>double\<close>s. The program never
  computes with them: it only stores, copies and compares them. The model therefore
  keeps the four kinds of value an IEEE 754 number can be and the comparison operators
  on them. A finite value is given by the real number it denotes; every finite double
  is such a number, so a statement proved for all \<open>Finite x\<close> holds for every finite
  double. The two zeros compare equal and are one value here, and the payload of a NaN
  is not kept; no comparison can tell them apart, and the validation only compares.

  As in C++, every ordered comparison with a NaN operand is false.
\<close>

datatype double = NaN | NegInf | Finite real | PosInf

text \<open>\<^verbatim>\<open>a < b\<close> on doubles.\<close>

fun dlt :: "double \<Rightarrow> double \<Rightarrow> bool" where
  "dlt NaN b = False"
| "dlt a NaN = False"
| "dlt PosInf b = False"
| "dlt a NegInf = False"
| "dlt NegInf b = True"
| "dlt (Finite x) (Finite y) = (x < y)"
| "dlt (Finite x) PosInf = True"

text \<open>\<^verbatim>\<open>a > b\<close>, \<^verbatim>\<open>a <= b\<close> and \<^verbatim>\<open>a >= b\<close> on doubles.\<close>

definition dgt :: "double \<Rightarrow> double \<Rightarrow> bool" where
  "dgt a b = dlt b a"

fun dle :: "double \<Rightarrow> double \<Rightarrow> bool" where
  "dle NaN b = False"
| "dle a NaN = False"
| "dle NegInf b = True"
| "dle a PosInf = True"
| "dle PosInf b = False"
| "dle a NegInf = False"
| "dle (Finite x) (Finite y) = (x \<le> y)"

definition dge :: "double \<Rightarrow> double \<Rightarrow> bool" where
  "dge a b = dle b a"

section \<open>The error classification and the exception class\<close>

datatype AccountError =
    InvalidAvailableBelowMin
  | InvalidPresentBelowMin
  | AvailableExceedsPresent
  | Unknown

text \<open>
  \<^verbatim>\<open>BankAccountException\<close>: the message of the \<^verbatim>\<open>std::runtime_error\<close> base
  (read by \<^verbatim>\<open>what()\<close>) and the member \<^verbatim>\<open>type_\<close> (read by \<^verbatim>\<open>type()\<close>).
\<close>

record BankAccountException =
  what :: string
  type_m :: AccountError

text \<open>
  The constructor of the exception; the source gives its second parameter the default
  \<^verbatim>\<open>AccountError::Unknown\<close>, which the one-argument form below takes.
\<close>

definition BankAccountException :: "string \<Rightarrow> AccountError \<Rightarrow> BankAccountException" where
  "BankAccountException msg ty = \<lparr>what = msg, type_m = ty\<rparr>"

definition BankAccountException_msg :: "string \<Rightarrow> BankAccountException" where
  "BankAccountException_msg msg = BankAccountException msg Unknown"

text \<open>
  A call either returns (\<open>Inr\<close>) or leaves by a thrown \<^verbatim>\<open>BankAccountException\<close>
  (\<open>Inl\<close>); no other exception is thrown by the class.
\<close>

type_synonym 'a outcome = "BankAccountException + 'a"

section \<open>The class BankAccount\<close>

text \<open>The two data members \<^verbatim>\<open>available_\<close> and \<^verbatim>\<open>present_\<close>.\<close>

record BankAccount =
  available_m :: double
  present_m :: double

definition MIN_DEFAULT_AVAILABLE_BALANCE :: double where
  "MIN_DEFAULT_AVAILABLE_BALANCE = Finite 5"

definition MIN_DEFAULT_PRESENT_BALANCE :: double where
  "MIN_DEFAULT_PRESENT_BALANCE = Finite 5"

text \<open>
  \<^verbatim>\<open>void setAccount(double available, double present)\<close> on the object \<open>this\<close>.
  The result is how the call ends together with the object as the call leaves it; a
  \<^verbatim>\<open>throw\<close> happens before either assignment.
\<close>

definition setAccount :: "double \<Rightarrow> double \<Rightarrow> BankAccount \<Rightarrow> unit outcome \<times> BankAccount" where
  "setAccount available present this =
     (if dlt available MIN_DEFAULT_AVAILABLE_BALANCE then
        (Inl (BankAccountException ''Available balance below minimum $5.00''
                InvalidAvailableBelowMin), this)
      else if dlt present MIN_DEFAULT_PRESENT_BALANCE then
        (Inl (BankAccountException ''Present balance below minimum $5.00''
                InvalidPresentBelowMin), this)
      else if dgt available present then
        (Inl (BankAccountException ''Available balance cannot exceed present balance''
                AvailableExceedsPresent), this)
      else
        (Inr (), this\<lparr>available_m := available, present_m := present\<rparr>))"

text \<open>The accessors \<^verbatim>\<open>available()\<close> and \<^verbatim>\<open>present()\<close>.\<close>

definition available :: "BankAccount \<Rightarrow> double" where
  "available this = available_m this"

definition present :: "BankAccount \<Rightarrow> double" where
  "present this = present_m this"

section \<open>The process: live objects, the static counter, standard output\<close>

text \<open>
  \<open>objects\<close> maps the address of every \<^verbatim>\<open>BankAccount\<close> whose lifetime has begun
  and not ended to its members. \<open>s_count\<close> is \<^verbatim>\<open>static int s_count\<close>, taken as a
  32-bit two's complement integer: \<^verbatim>\<open>++\<close> and \<^verbatim>\<open>--\<close> are the machine's addition
  and subtraction, which wrap around (the C++ standard leaves the overflow of a signed
  integer undefined). \<open>cout\<close> is the text written so far.
\<close>

record world =
  objects :: "nat \<rightharpoonup> BankAccount"
  s_count :: "32 word"
  cout :: string

text \<open>The start of the program: \<^verbatim>\<open>int BankAccount::s_count = 0\<close>, nothing constructed.\<close>

definition world0 :: world where
  "world0 = \<lparr>objects = Map.empty, s_count = 0, cout = []\<rparr>"

text \<open>\<^verbatim>\<open>static int getObjectCount()\<close>.\<close>

definition getObjectCount :: "world \<Rightarrow> int" where
  "getObjectCount w = sint (s_count w)"

text \<open>
  The members of a \<^verbatim>\<open>BankAccount\<close> as their default member initialisers leave
  them; the constructor from two values starts from these, having no initialiser list.
\<close>

definition member_init :: BankAccount where
  "member_init = \<lparr>available_m = MIN_DEFAULT_AVAILABLE_BALANCE,
                   present_m = MIN_DEFAULT_PRESENT_BALANCE\<rparr>"

text \<open>\<^verbatim>\<open>BankAccount()\<close>, constructing at address \<open>this\<close>.\<close>

definition BankAccount_default :: "nat \<Rightarrow> world \<Rightarrow> unit outcome \<times> world" where
  "BankAccount_default this w =
     (Inr (), w\<lparr>objects := (objects w)(this \<mapsto>
                    \<lparr>available_m = MIN_DEFAULT_AVAILABLE_BALANCE,
                     present_m = MIN_DEFAULT_PRESENT_BALANCE\<rparr>),
                s_count := s_count w + 1\<rparr>)"

text \<open>
  \<^verbatim>\<open>BankAccount(double available, double present)\<close>, with \<open>a\<close> and \<open>p\<close> for the
  two parameters: the \<^verbatim>\<open>try\<close> block calls \<open>setAccount\<close>; the handler catches
  every \<^verbatim>\<open>BankAccountException\<close>, assigns the two minimums and writes the notice;
  the counter is incremented after either path.
\<close>

definition create_notice :: "BankAccountException \<Rightarrow> string" where
  "create_notice ex =
     ''[Create] '' @ what ex @ '' -> account set to defaults ($5.00, $5.00)'' @ [CHR 0x0A]"

definition BankAccount_values :: "nat \<Rightarrow> double \<Rightarrow> double \<Rightarrow> world \<Rightarrow> unit outcome \<times> world" where
  "BankAccount_values this a p w =
     (case setAccount a p member_init of
        (Inr u, obj) \<Rightarrow>
          (Inr (), w\<lparr>objects := (objects w)(this \<mapsto> obj),
                     s_count := s_count w + 1\<rparr>)
      | (Inl ex, obj) \<Rightarrow>
          (Inr (), w\<lparr>objects := (objects w)(this \<mapsto>
                         obj\<lparr>available_m := MIN_DEFAULT_AVAILABLE_BALANCE,
                             present_m := MIN_DEFAULT_PRESENT_BALANCE\<rparr>),
                     s_count := s_count w + 1,
                     cout := cout w @ create_notice ex\<rparr>))"

text \<open>
  \<^verbatim>\<open>BankAccount(const BankAccount& other)\<close> and
  \<^verbatim>\<open>BankAccount(BankAccount&& other) noexcept\<close>, constructing at \<open>this\<close> from the
  live object at address \<open>other\<close>. \<open>None\<close>: there is no object at \<open>other\<close>, and the
  call is not one a C++ program can make.
\<close>

definition BankAccount_copy :: "nat \<Rightarrow> nat \<Rightarrow> world \<Rightarrow> (unit outcome \<times> world) option" where
  "BankAccount_copy this other w =
     (case objects w other of
        None \<Rightarrow> None
      | Some src \<Rightarrow>
          Some (Inr (), w\<lparr>objects := (objects w)(this \<mapsto>
                              \<lparr>available_m = available_m src, present_m = present_m src\<rparr>),
                          s_count := s_count w + 1\<rparr>))"

definition BankAccount_move :: "nat \<Rightarrow> nat \<Rightarrow> world \<Rightarrow> (unit outcome \<times> world) option" where
  "BankAccount_move this other w =
     (case objects w other of
        None \<Rightarrow> None
      | Some src \<Rightarrow>
          Some (Inr (), w\<lparr>objects := (objects w)(this \<mapsto>
                              \<lparr>available_m = available_m src, present_m = present_m src\<rparr>),
                          s_count := s_count w + 1\<rparr>))"

text \<open>\<^verbatim>\<open>~BankAccount()\<close> on the object at \<open>this\<close>, whose lifetime ends.\<close>

definition BankAccount_destroy :: "nat \<Rightarrow> world \<Rightarrow> world" where
  "BankAccount_destroy this w =
     w\<lparr>objects := (objects w)(this := None), s_count := s_count w - 1\<rparr>"

text \<open>
  A call \<^verbatim>\<open>obj.setAccount(a, p)\<close> on the live object at address
  \<open>this\<close>: the member function runs on that object, and the process carries the
  object as the call leaves it.
\<close>

definition call_setAccount ::
    "nat \<Rightarrow> double \<Rightarrow> double \<Rightarrow> world \<Rightarrow> (unit outcome \<times> world) option" where
  "call_setAccount this a p w =
     (case objects w this of
        None \<Rightarrow> None
      | Some obj \<Rightarrow>
          (case setAccount a p obj of
             (r, obj') \<Rightarrow> Some (r, w\<lparr>objects := (objects w)(this \<mapsto> obj')\<rparr>)))"

section \<open>Sequences of operations\<close>

text \<open>
  What a program does with the class, one operation at a time: the four constructors at
  an address not holding an object, the destructor and \<open>setAccount\<close> on a live
  object. \<open>step\<close> is \<open>None\<close> for an operation no C++ program can perform (an object
  constructed over a live one, an object used or destroyed outside its lifetime). An
  exception thrown by \<open>setAccount\<close> is caught by the caller, as \<^verbatim>\<open>main\<close> does, and
  the program goes on.
\<close>

datatype call =
    Construct nat
  | ConstructValues nat double double
  | ConstructCopy nat nat
  | ConstructMove nat nat
  | Destroy nat
  | SetAccount nat double double

fun step :: "call \<Rightarrow> world \<Rightarrow> world option" where
  "step (Construct this) w =
     (if objects w this = None then Some (snd (BankAccount_default this w)) else None)"
| "step (ConstructValues this a p) w =
     (if objects w this = None then Some (snd (BankAccount_values this a p w)) else None)"
| "step (ConstructCopy this other) w =
     (if objects w this = None then map_option snd (BankAccount_copy this other w) else None)"
| "step (ConstructMove this other) w =
     (if objects w this = None then map_option snd (BankAccount_move this other w) else None)"
| "step (Destroy this) w =
     (if objects w this = None then None else Some (BankAccount_destroy this w))"
| "step (SetAccount this a p) w = map_option snd (call_setAccount this a p w)"

fun run :: "call list \<Rightarrow> world \<Rightarrow> world option" where
  "run [] w = Some w"
| "run (c # cs) w = (case step c w of None \<Rightarrow> None | Some w' \<Rightarrow> run cs w')"

fun is_construction :: "call \<Rightarrow> bool" where
  "is_construction (Construct this) = True"
| "is_construction (ConstructValues this a p) = True"
| "is_construction (ConstructCopy this other) = True"
| "is_construction (ConstructMove this other) = True"
| "is_construction (Destroy this) = False"
| "is_construction (SetAccount this a p) = False"

fun is_destruction :: "call \<Rightarrow> bool" where
  "is_destruction (Destroy this) = True"
| "is_destruction c = False"

text \<open>The numbers N of instances constructed and M of instances destroyed by a sequence.\<close>

definition constructed :: "call list \<Rightarrow> nat" where
  "constructed cs = length (filter is_construction cs)"

definition destroyed :: "call list \<Rightarrow> nat" where
  "destroyed cs = length (filter is_destruction cs)"

text \<open>The largest value of a 32-bit \<^verbatim>\<open>int\<close>.\<close>

definition INT_MAX :: nat where
  "INT_MAX = 2147483647"

text \<open>
  The number of live instances stays within \<^verbatim>\<open>int\<close> after every prefix of the
  sequence.
\<close>

definition within_int :: "call list \<Rightarrow> bool" where
  "within_int cs =
     list_all (\<lambda>k. constructed (take k cs) - destroyed (take k cs) \<le> INT_MAX)
       [0 ..< Suc (length cs)]"

section \<open>Properties stated of an account\<close>

text \<open>The three invariants of the data model, with the comparisons of C++.\<close>

definition invariant :: "BankAccount \<Rightarrow> bool" where
  "invariant acc \<longleftrightarrow>
     dge (available_m acc) MIN_DEFAULT_AVAILABLE_BALANCE
   \<and> dge (present_m acc) MIN_DEFAULT_PRESENT_BALANCE
   \<and> dle (available_m acc) (present_m acc)"

text \<open>Every live object of the process satisfies the invariants.\<close>

definition all_valid :: "world \<Rightarrow> bool" where
  "all_valid w = (\<forall>this obj. objects w this = Some obj \<longrightarrow> invariant obj)"

text \<open>The operation passes no NaN as an amount.\<close>

fun nan_free :: "call \<Rightarrow> bool" where
  "nan_free (ConstructValues this a p) = (a \<noteq> NaN \<and> p \<noteq> NaN)"
| "nan_free (SetAccount this a p) = (a \<noteq> NaN \<and> p \<noteq> NaN)"
| "nan_free c = True"

text \<open>The kind of the rejection a call ended with, if it ended with one.\<close>

definition rejection_kind :: "unit outcome \<Rightarrow> AccountError option" where
  "rejection_kind r = (case r of Inl ex \<Rightarrow> Some (type_m ex) | Inr u \<Rightarrow> None)"

section \<open>Comparisons\<close>

lemma dge_not_dlt: "dge a b \<Longrightarrow> \<not> dlt a b"
  by (cases a; cases b) (simp_all add: dge_def)

lemma dle_not_dgt: "dle a b \<Longrightarrow> \<not> dgt a b"
  by (cases a; cases b) (simp_all add: dgt_def)

lemma not_dlt_dge: "a \<noteq> NaN \<Longrightarrow> b \<noteq> NaN \<Longrightarrow> \<not> dlt a b \<Longrightarrow> dge a b"
  by (cases a; cases b) (simp_all add: dge_def)

lemma not_dgt_dle: "a \<noteq> NaN \<Longrightarrow> b \<noteq> NaN \<Longrightarrow> \<not> dgt a b \<Longrightarrow> dle a b"
  by (cases a; cases b) (simp_all add: dgt_def)

lemmas minimums = MIN_DEFAULT_AVAILABLE_BALANCE_def MIN_DEFAULT_PRESENT_BALANCE_def

section \<open>Validated assignment\<close>

text \<open>
  Claim C1. For all amounts \<open>a\<close>, \<open>p\<close> with \<open>a >= 5.00\<close>, \<open>p >= 5.00\<close> and \<open>a <= p\<close>,
  \<open>setAccount a p\<close> on any account returns without throwing, and afterwards
  \<open>available\<close> and \<open>present\<close> return exactly \<open>a\<close> and \<open>p\<close>.
\<close>

theorem setAccount_valid_succeeds:
  assumes "dge a (Finite 5)" and "dge p (Finite 5)" and "dle a p"
  shows "fst (setAccount a p acc) = Inr ()
       \<and> available (snd (setAccount a p acc)) = a
       \<and> present (snd (setAccount a p acc)) = p"
proof -
  from assms(1) have 1: "\<not> dlt a (Finite 5)"
    by (rule dge_not_dlt)
  from assms(2) have 2: "\<not> dlt p (Finite 5)"
    by (rule dge_not_dlt)
  from assms(3) have 3: "\<not> dgt a p"
    by (rule dle_not_dgt)
  from 1 2 3 show ?thesis
    by (simp add: setAccount_def available_def present_def minimums)
qed

theorem setAccount_valid_succeeds_witness:
  "dge (Finite 15) (Finite 5) \<and> dge (Finite 30) (Finite 5) \<and> dle (Finite 15) (Finite 30)
   \<and> fst (setAccount (Finite 15) (Finite 30) \<lparr>available_m = Finite 10, present_m = Finite 20\<rparr>)
       = Inr ()
   \<and> available (snd (setAccount (Finite 15) (Finite 30)
        \<lparr>available_m = Finite 10, present_m = Finite 20\<rparr>)) = Finite 15
   \<and> present (snd (setAccount (Finite 15) (Finite 30)
        \<lparr>available_m = Finite 10, present_m = Finite 20\<rparr>)) = Finite 30"
proof -
  have h1: "dge (Finite 15) (Finite 5)" by (simp add: dge_def)
  have h2: "dge (Finite 30) (Finite 5)" by (simp add: dge_def)
  have h3: "dle (Finite 15) (Finite 30)" by simp
  from setAccount_valid_succeeds [OF h1 h2 h3,
      of "\<lparr>available_m = Finite 10, present_m = Finite 20\<rparr>"] h1 h2 h3
  show ?thesis by blast
qed

text \<open>
  Claim C2. \<open>setAccount\<close> checks its three rules in a fixed order and the first rule that
  fails gives the kind of the rejection: \<open>a < 5.00\<close> (any \<open>p\<close>) is rejected as
  \<open>InvalidAvailableBelowMin\<close>; otherwise \<open>p < 5.00\<close> as \<open>InvalidPresentBelowMin\<close>;
  otherwise \<open>a > p\<close> as \<open>AvailableExceedsPresent\<close>; in all remaining cases the call
  is accepted. "Otherwise" is the failure of the earlier test, as in the code; the last
  two conjuncts are the same rules with \<open>a >= 5.00\<close> and \<open>p >= 5.00\<close> written out.
\<close>

theorem setAccount_validation_order:
  "(dlt a (Finite 5) \<longrightarrow>
      rejection_kind (fst (setAccount a p acc)) = Some InvalidAvailableBelowMin)
 \<and> (\<not> dlt a (Finite 5) \<and> dlt p (Finite 5) \<longrightarrow>
      rejection_kind (fst (setAccount a p acc)) = Some InvalidPresentBelowMin)
 \<and> (\<not> dlt a (Finite 5) \<and> \<not> dlt p (Finite 5) \<and> dgt a p \<longrightarrow>
      rejection_kind (fst (setAccount a p acc)) = Some AvailableExceedsPresent)
 \<and> (\<not> dlt a (Finite 5) \<and> \<not> dlt p (Finite 5) \<and> \<not> dgt a p \<longrightarrow>
      fst (setAccount a p acc) = Inr ())
 \<and> (dge a (Finite 5) \<and> dlt p (Finite 5) \<longrightarrow>
      rejection_kind (fst (setAccount a p acc)) = Some InvalidPresentBelowMin)
 \<and> (dge a (Finite 5) \<and> dge p (Finite 5) \<and> dgt a p \<longrightarrow>
      rejection_kind (fst (setAccount a p acc)) = Some AvailableExceedsPresent)"
  by (auto simp: setAccount_def rejection_kind_def BankAccountException_def minimums
      dest: dge_not_dlt)

theorem setAccount_validation_order_witness:
  "dlt (Finite 1) (Finite 5)
 \<and> rejection_kind (fst (setAccount (Finite 1) (Finite 2)
      \<lparr>available_m = Finite 10, present_m = Finite 20\<rparr>)) = Some InvalidAvailableBelowMin
 \<and> \<not> dlt (Finite 7) (Finite 5) \<and> dge (Finite 7) (Finite 5) \<and> dlt (Finite 2) (Finite 5)
 \<and> rejection_kind (fst (setAccount (Finite 7) (Finite 2)
      \<lparr>available_m = Finite 10, present_m = Finite 20\<rparr>)) = Some InvalidPresentBelowMin
 \<and> \<not> dlt (Finite 20) (Finite 5) \<and> dge (Finite 20) (Finite 5)
 \<and> \<not> dlt (Finite 10) (Finite 5) \<and> dge (Finite 10) (Finite 5)
 \<and> dgt (Finite 20) (Finite 10)
 \<and> rejection_kind (fst (setAccount (Finite 20) (Finite 10)
      \<lparr>available_m = Finite 10, present_m = Finite 20\<rparr>)) = Some AvailableExceedsPresent
 \<and> \<not> dlt (Finite 15) (Finite 5) \<and> \<not> dlt (Finite 30) (Finite 5)
 \<and> \<not> dgt (Finite 15) (Finite 30)
 \<and> fst (setAccount (Finite 15) (Finite 30)
      \<lparr>available_m = Finite 10, present_m = Finite 20\<rparr>) = Inr ()"
  using setAccount_validation_order [of "Finite 1" "Finite 2" "\<lparr>available_m = Finite 10, present_m = Finite 20\<rparr>"]
    setAccount_validation_order [of "Finite 7" "Finite 2" "\<lparr>available_m = Finite 10, present_m = Finite 20\<rparr>"]
    setAccount_validation_order [of "Finite 20" "Finite 10" "\<lparr>available_m = Finite 10, present_m = Finite 20\<rparr>"]
    setAccount_validation_order [of "Finite 15" "Finite 30" "\<lparr>available_m = Finite 10, present_m = Finite 20\<rparr>"]
  by (simp add: dge_def dgt_def)

lemma setAccount_outcome_independent:
  "fst (setAccount a p acc) = fst (setAccount a p acc')"
  by (simp add: setAccount_def)

text \<open>
  Claim C3. \<open>setAccount\<close> is atomic: whenever it rejects, the account after the call equals
  the account before it (neither \<open>available_\<close> nor \<open>present_\<close> is changed), and the
  exception carries a message and the kind that goes with it.
\<close>

theorem setAccount_rejection_atomic:
  assumes "fst (setAccount a p acc) = Inl ex"
  shows "snd (setAccount a p acc) = acc
       \<and> available (snd (setAccount a p acc)) = available acc
       \<and> present (snd (setAccount a p acc)) = present acc
       \<and> (type_m ex, what ex) \<in>
           {(InvalidAvailableBelowMin, ''Available balance below minimum $5.00''),
            (InvalidPresentBelowMin, ''Present balance below minimum $5.00''),
            (AvailableExceedsPresent, ''Available balance cannot exceed present balance'')}
       \<and> what ex \<noteq> []"
  using assms
  by (auto simp: setAccount_def BankAccountException_def split: if_splits)

theorem setAccount_rejection_atomic_witness:
  "fst (setAccount (Finite 1) (Finite 20) \<lparr>available_m = Finite 10, present_m = Finite 20\<rparr>)
     = Inl \<lparr>what = ''Available balance below minimum $5.00'', type_m = InvalidAvailableBelowMin\<rparr>
 \<and> snd (setAccount (Finite 1) (Finite 20) \<lparr>available_m = Finite 10, present_m = Finite 20\<rparr>)
     = \<lparr>available_m = Finite 10, present_m = Finite 20\<rparr>"
proof -
  have h: "fst (setAccount (Finite 1) (Finite 20)
                 \<lparr>available_m = Finite 10, present_m = Finite 20\<rparr>)
           = Inl \<lparr>what = ''Available balance below minimum $5.00'',
                  type_m = InvalidAvailableBelowMin\<rparr>"
    by (simp add: setAccount_def BankAccountException_def minimums)
  from setAccount_rejection_atomic [OF h] h show ?thesis by blast
qed

text \<open>
  Claim C9. \<open>setAccount\<close> never throws with kind \<open>Unknown\<close>: every rejection carries one of
  the three kinds of the validation.
\<close>

theorem setAccount_never_Unknown:
  assumes "fst (setAccount a p acc) = Inl ex"
  shows "type_m ex \<noteq> Unknown
       \<and> type_m ex \<in> {InvalidAvailableBelowMin, InvalidPresentBelowMin, AvailableExceedsPresent}"
  using assms
  by (auto simp: setAccount_def BankAccountException_def split: if_splits)

theorem setAccount_never_Unknown_witness:
  "fst (setAccount (Finite 20) (Finite 10) member_init)
     = Inl (BankAccountException ''Available balance cannot exceed present balance''
              AvailableExceedsPresent)
 \<and> type_m (BankAccountException ''Available balance cannot exceed present balance''
              AvailableExceedsPresent) \<noteq> Unknown"
proof -
  have h: "fst (setAccount (Finite 20) (Finite 10) member_init)
     = Inl (BankAccountException ''Available balance cannot exceed present balance''
              AvailableExceedsPresent)"
    by (simp add: setAccount_def minimums dgt_def)
  from setAccount_never_Unknown [OF h] h show ?thesis by blast
qed

text \<open>
  Claim C10. The outcome of \<open>setAccount\<close> depends on its two arguments only: on two accounts
  in any states the same arguments give the same decision, the same kind of rejection,
  and on success the same values of the two members.
\<close>

theorem setAccount_depends_on_arguments_only:
  "fst (setAccount a p acc1) = fst (setAccount a p acc2)
 \<and> rejection_kind (fst (setAccount a p acc1)) = rejection_kind (fst (setAccount a p acc2))
 \<and> (fst (setAccount a p acc1) = Inr () \<longrightarrow>
       available (snd (setAccount a p acc1)) = available (snd (setAccount a p acc2))
     \<and> present (snd (setAccount a p acc1)) = present (snd (setAccount a p acc2))
     \<and> snd (setAccount a p acc1) = snd (setAccount a p acc2))"
  by (simp add: setAccount_def available_def present_def)

theorem setAccount_depends_on_arguments_only_witness:
  "fst (setAccount (Finite 15) (Finite 30) \<lparr>available_m = Finite 10, present_m = Finite 20\<rparr>)
     = Inr ()
 \<and> snd (setAccount (Finite 15) (Finite 30) \<lparr>available_m = Finite 10, present_m = Finite 20\<rparr>)
     = snd (setAccount (Finite 15) (Finite 30) \<lparr>available_m = Finite 5, present_m = Finite 5\<rparr>)"
proof -
  have h: "fst (setAccount (Finite 15) (Finite 30)
             \<lparr>available_m = Finite 10, present_m = Finite 20\<rparr>) = Inr ()"
    by (simp add: setAccount_def minimums dgt_def)
  from setAccount_depends_on_arguments_only [of "Finite 15" "Finite 30"
      "\<lparr>available_m = Finite 10, present_m = Finite 20\<rparr>"
      "\<lparr>available_m = Finite 5, present_m = Finite 5\<rparr>"] h
  show ?thesis by blast
qed

section \<open>Construction from two values\<close>

text \<open>
  Claim C4. For every pair \<open>(a, p)\<close> that \<open>setAccount\<close> rejects, the constructor
  \<^verbatim>\<open>BankAccount(a, p)\<close> returns without an exception: it catches the rejection,
  writes the notice with the message of the rejection, and the new object holds
  \<open>available = 5.00\<close> and \<open>present = 5.00\<close>.
\<close>

theorem constructor_swallows_rejection:
  assumes "fst (setAccount a p acc) = Inl ex"
  shows "fst (BankAccount_values this a p w) = Inr ()
       \<and> objects (snd (BankAccount_values this a p w)) this
           = Some \<lparr>available_m = Finite 5, present_m = Finite 5\<rparr>
       \<and> cout (snd (BankAccount_values this a p w)) = cout w @ create_notice ex
       \<and> s_count (snd (BankAccount_values this a p w)) = s_count w + 1"
proof -
  from assms have r: "fst (setAccount a p member_init) = Inl ex"
    by (simp add: setAccount_outcome_independent [of a p member_init acc])
  then obtain obj where s: "setAccount a p member_init = (Inl ex, obj)"
    by (cases "setAccount a p member_init") simp
  show ?thesis
    by (simp add: BankAccount_values_def s minimums)
qed

theorem constructor_swallows_rejection_witness:
  "fst (setAccount (Finite 3) (Finite 20) member_init)
     = Inl (BankAccountException ''Available balance below minimum $5.00''
              InvalidAvailableBelowMin)
 \<and> fst (BankAccount_values 0 (Finite 3) (Finite 20) world0) = Inr ()
 \<and> objects (snd (BankAccount_values 0 (Finite 3) (Finite 20) world0)) 0
     = Some \<lparr>available_m = Finite 5, present_m = Finite 5\<rparr>
 \<and> cout (snd (BankAccount_values 0 (Finite 3) (Finite 20) world0))
     = ''[Create] Available balance below minimum $5.00 -> account set to defaults ($5.00, $5.00)''
       @ [CHR 0x0A]"
proof -
  have h: "fst (setAccount (Finite 3) (Finite 20) member_init)
     = Inl (BankAccountException ''Available balance below minimum $5.00''
              InvalidAvailableBelowMin)"
    by (simp add: setAccount_def minimums)
  from constructor_swallows_rejection [OF h, of 0 world0] h show ?thesis
    by (simp add: world0_def create_notice_def BankAccountException_def)
qed

section \<open>The invariants\<close>

text \<open>
  Claim C5. Every account that was constructed or updated with success satisfies the
  three invariants \<open>available >= 5.00\<close>, \<open>present >= 5.00\<close> and
  \<open>available <= present\<close>, and every operation preserves them. The code does not
  establish this for a NaN amount: each of its tests \<open>available < 5.00\<close>,
  \<open>present < 5.00\<close> and \<open>available > present\<close> is false when an operand is NaN, so
  \<open>setAccount(NaN, 10.0)\<close> on the valid account \<open>(5.00, 5.00)\<close> returns and stores
  \<open>(NaN, 10.0)\<close>, for which \<open>available >= 5.00\<close> is false; the constructor
  \<^verbatim>\<open>BankAccount(NaN, 10.0)\<close> builds the same object and writes no notice.
\<close>

theorem setAccount_accepts_NaN:
  "invariant \<lparr>available_m = Finite 5, present_m = Finite 5\<rparr>
 \<and> setAccount NaN (Finite 10) \<lparr>available_m = Finite 5, present_m = Finite 5\<rparr>
     = (Inr (), \<lparr>available_m = NaN, present_m = Finite 10\<rparr>)
 \<and> \<not> invariant \<lparr>available_m = NaN, present_m = Finite 10\<rparr>
 \<and> BankAccount_values 0 NaN (Finite 10) world0
     = (Inr (), \<lparr>objects = [0 \<mapsto> \<lparr>available_m = NaN, present_m = Finite 10\<rparr>],
                 s_count = 1, cout = []\<rparr>)"
  by (simp add: invariant_def setAccount_def BankAccount_values_def member_init_def
      world0_def minimums dge_def dgt_def)

text \<open>
  The defect is confined to NaN: operations that pass no NaN keep every live object
  within the invariants.
\<close>

lemma invariant_member_init: "invariant member_init"
  by (simp add: invariant_def member_init_def minimums dge_def)

lemma setAccount_invariant:
  assumes "a \<noteq> NaN" and "p \<noteq> NaN" and "invariant acc"
  shows "invariant (snd (setAccount a p acc))"
proof (cases "fst (setAccount a p acc)")
  case (Inl ex)
  then have "snd (setAccount a p acc) = acc"
    by (simp add: setAccount_def split: if_splits)
  with assms(3) show ?thesis by simp
next
  case (Inr u)
  then have t: "\<not> dlt a (Finite 5)" "\<not> dlt p (Finite 5)" "\<not> dgt a p"
    and s: "snd (setAccount a p acc) = acc\<lparr>available_m := a, present_m := p\<rparr>"
    by (simp_all add: setAccount_def minimums split: if_splits)
  from assms(1) t(1) have "dge a (Finite 5)" by (simp add: not_dlt_dge)
  moreover from assms(2) t(2) have "dge p (Finite 5)" by (simp add: not_dlt_dge)
  moreover from assms(1,2) t(3) have "dle a p" by (simp add: not_dgt_dle)
  ultimately show ?thesis by (simp add: s invariant_def minimums)
qed

lemma BankAccount_values_invariant:
  assumes "a \<noteq> NaN" and "p \<noteq> NaN"
  shows "\<exists>obj out. invariant obj \<and> snd (BankAccount_values this a p w)
     = w\<lparr>objects := (objects w)(this \<mapsto> obj), s_count := s_count w + 1, cout := out\<rparr>"
proof (cases "setAccount a p member_init")
  case (Pair r obj)
  show ?thesis
  proof (cases r)
    case (Inl ex)
    have "invariant (obj\<lparr>available_m := MIN_DEFAULT_AVAILABLE_BALANCE,
                           present_m := MIN_DEFAULT_PRESENT_BALANCE\<rparr>)"
      by (simp add: invariant_def minimums dge_def)
    moreover from Pair Inl have "snd (BankAccount_values this a p w)
      = w\<lparr>objects := (objects w)(this \<mapsto> obj\<lparr>available_m := MIN_DEFAULT_AVAILABLE_BALANCE,
                           present_m := MIN_DEFAULT_PRESENT_BALANCE\<rparr>),
           s_count := s_count w + 1, cout := cout w @ create_notice ex\<rparr>"
      by (simp add: BankAccount_values_def)
    ultimately show ?thesis by blast
  next
    case (Inr u)
    from setAccount_invariant [OF assms invariant_member_init] Pair
    have "invariant obj" by simp
    moreover from Pair Inr have "snd (BankAccount_values this a p w)
      = w\<lparr>objects := (objects w)(this \<mapsto> obj), s_count := s_count w + 1, cout := cout w\<rparr>"
      by (simp add: BankAccount_values_def)
    ultimately show ?thesis by blast
  qed
qed

lemma BankAccount_members:
  "\<lparr>available_m = available_m src, present_m = present_m src\<rparr> = src"
  by (cases src) simp

lemma all_valid_update:
  "all_valid w \<Longrightarrow> invariant obj \<Longrightarrow>
   objects w' = (objects w)(this \<mapsto> obj) \<Longrightarrow> all_valid w'"
  by (simp add: all_valid_def)

lemma step_all_valid:
  assumes "step c w = Some w'" and "nan_free c" and "all_valid w"
  shows "all_valid w'"
proof (cases c)
  case (Construct this)
  with assms(1) have "objects w' = (objects w)(this \<mapsto> member_init)"
    by (auto simp: BankAccount_default_def member_init_def split: if_splits)
  with assms(3) invariant_member_init show ?thesis by (rule all_valid_update)
next
  case (ConstructValues this a p)
  with assms(2) have "a \<noteq> NaN" "p \<noteq> NaN" by simp_all
  from BankAccount_values_invariant [OF this, of this w] obtain obj out where
    i: "invariant obj" and "snd (BankAccount_values this a p w)
     = w\<lparr>objects := (objects w)(this \<mapsto> obj), s_count := s_count w + 1, cout := out\<rparr>"
    by blast
  moreover from assms(1) ConstructValues have "w' = snd (BankAccount_values this a p w)"
    by (simp split: if_splits)
  ultimately have "objects w' = (objects w)(this \<mapsto> obj)" by simp
  with assms(3) i show ?thesis by (rule all_valid_update)
next
  case (ConstructCopy this other)
  with assms(1) obtain src where s: "objects w other = Some src"
    and "objects w' = (objects w)(this \<mapsto> src)"
    by (auto simp: BankAccount_copy_def BankAccount_members split: if_splits option.splits)
  moreover from assms(3) s have "invariant src" by (simp add: all_valid_def)
  ultimately show ?thesis using assms(3) by (blast intro: all_valid_update)
next
  case (ConstructMove this other)
  with assms(1) obtain src where s: "objects w other = Some src"
    and "objects w' = (objects w)(this \<mapsto> src)"
    by (auto simp: BankAccount_move_def BankAccount_members split: if_splits option.splits)
  moreover from assms(3) s have "invariant src" by (simp add: all_valid_def)
  ultimately show ?thesis using assms(3) by (blast intro: all_valid_update)
next
  case (Destroy this)
  with assms(1) have "objects w' = (objects w)(this := None)"
    by (auto simp: BankAccount_destroy_def split: if_splits)
  with assms(3) show ?thesis by (simp add: all_valid_def)
next
  case (SetAccount this a p)
  with assms(2) have n: "a \<noteq> NaN" "p \<noteq> NaN" by simp_all
  from assms(1) SetAccount obtain obj where o: "objects w this = Some obj"
    and "objects w' = (objects w)(this \<mapsto> snd (setAccount a p obj))"
    by (auto simp: call_setAccount_def split: option.splits prod.splits)
  moreover from assms(3) o have "invariant obj" by (simp add: all_valid_def)
  then have "invariant (snd (setAccount a p obj))" by (rule setAccount_invariant [OF n])
  ultimately show ?thesis using assms(3) by (blast intro: all_valid_update)
qed

lemma run_all_valid:
  assumes "run cs w = Some w'" and "list_all nan_free cs" and "all_valid w"
  shows "all_valid w'"
  using assms
proof (induction cs arbitrary: w)
  case Nil
  then show ?case by simp
next
  case (Cons c cs)
  then obtain w1 where s: "step c w = Some w1" and r: "run cs w1 = Some w'"
    by (auto split: option.splits)
  from Cons.prems(2) have n: "nan_free c" "list_all nan_free cs" by simp_all
  from step_all_valid [OF s n(1) Cons.prems(3)] have "all_valid w1" .
  with Cons.IH [OF r n(2)] show ?case by blast
qed

section \<open>Copy and move construction\<close>

lemma sint_of_nat_32: "n \<le> 2147483647 \<Longrightarrow> sint (word_of_nat n :: 32 word) = int n"
proof -
  assume a: "n \<le> 2147483647"
  have "sint (word_of_nat n :: 32 word) = signed_take_bit 31 (int n)"
    using sint_sbintrunc' [of "int n", where ?'a = 32] by simp
  also have "\<dots> = int n" using a by (intro signed_take_bit_int_eq_self) simp_all
  finally show ?thesis by simp
qed

lemma sint_succ_32: "sint (x :: 32 word) < 2147483647 \<Longrightarrow> sint (x + 1) = sint x + 1"
proof -
  assume a: "sint x < 2147483647"
  have lo: "- (2 ^ 31) \<le> sint x" using sint_ge [of x] by simp
  have "sint (x + 1) = signed_take_bit 31 (sint x + 1)"
    by (simp add: sint_word_add)
  also have "\<dots> = sint x + 1" using a lo by (intro signed_take_bit_int_eq_self) simp_all
  finally show ?thesis .
qed

text \<open>
  Claim C7. Copy construction and move construction each produce an object whose
  \<open>available\<close> and \<open>present\<close> equal those of the source, increment the counter by one
  (\<^verbatim>\<open>++s_count\<close> on the 32-bit counter; read as an \<^verbatim>\<open>int\<close> it grows by one below
  \<open>INT_MAX\<close>), run no validation (the source is taken whatever its values, and no
  exception is thrown), and leave the source, and every other object, as it was.
\<close>

theorem copy_and_move_construct:
  assumes "objects w other = Some src" and "objects w this = None"
  shows "\<exists>w'. BankAccount_copy this other w = Some (Inr (), w')
            \<and> BankAccount_move this other w = Some (Inr (), w')
            \<and> map_option available (objects w' this) = Some (available src)
            \<and> map_option present (objects w' this) = Some (present src)
            \<and> objects w' other = Some src
            \<and> (\<forall>q. q \<noteq> this \<longrightarrow> objects w' q = objects w q)
            \<and> s_count w' = s_count w + 1
            \<and> (getObjectCount w < 2147483647 \<longrightarrow> getObjectCount w' = getObjectCount w + 1)
            \<and> cout w' = cout w"
proof -
  from assms have ne: "other \<noteq> this" by auto
  show ?thesis
    using assms ne
    by (simp add: BankAccount_copy_def BankAccount_move_def available_def present_def
        getObjectCount_def sint_succ_32)
qed

theorem copy_and_move_construct_witness:
  "BankAccount_copy 1 0
     \<lparr>objects = [0 \<mapsto> \<lparr>available_m = NaN, present_m = Finite 10\<rparr>], s_count = 1, cout = []\<rparr>
   = Some (Inr (),
       \<lparr>objects = [0 \<mapsto> \<lparr>available_m = NaN, present_m = Finite 10\<rparr>,
                   1 \<mapsto> \<lparr>available_m = NaN, present_m = Finite 10\<rparr>],
        s_count = 2, cout = []\<rparr>)
 \<and> (0::nat) \<noteq> 1
 \<and> getObjectCount
       \<lparr>objects = [0 \<mapsto> \<lparr>available_m = NaN, present_m = Finite 10\<rparr>],
        s_count = 1, cout = []\<rparr> < 2147483647"
proof -
  let ?w = "\<lparr>objects = [0 \<mapsto> \<lparr>available_m = NaN, present_m = Finite 10\<rparr>],
             s_count = 1 :: 32 word, cout = []\<rparr>"
  have h1: "objects ?w 0 = Some \<lparr>available_m = NaN, present_m = Finite 10\<rparr>" by simp
  have h2: "objects ?w 1 = None" by simp
  from copy_and_move_construct [OF h1 h2] show ?thesis
    by (simp add: BankAccount_copy_def getObjectCount_def)
qed

section \<open>What setAccount leaves alone\<close>

text \<open>
  Claim C8. A call of \<open>setAccount\<close>, whether it accepts or rejects, leaves the
  counter of live instances unchanged and changes nothing but the object it is called
  on: the output, the set of live objects and every other object stay as they were.
\<close>

theorem setAccount_frame:
  assumes "call_setAccount this a p w = Some (r, w')"
  shows "s_count w' = s_count w
       \<and> getObjectCount w' = getObjectCount w
       \<and> cout w' = cout w
       \<and> dom (objects w') = dom (objects w)
       \<and> (\<forall>q. q \<noteq> this \<longrightarrow> objects w' q = objects w q)"
  using assms
  by (auto simp: call_setAccount_def getObjectCount_def
      split: option.splits prod.splits if_splits)

theorem setAccount_frame_witness:
  "call_setAccount 0 (Finite 15) (Finite 30)
     \<lparr>objects = [0 \<mapsto> \<lparr>available_m = Finite 10, present_m = Finite 20\<rparr>,
                 1 \<mapsto> \<lparr>available_m = Finite 5, present_m = Finite 5\<rparr>],
      s_count = 2, cout = []\<rparr>
   = Some (Inr (),
       \<lparr>objects = [0 \<mapsto> \<lparr>available_m = Finite 15, present_m = Finite 30\<rparr>,
                   1 \<mapsto> \<lparr>available_m = Finite 5, present_m = Finite 5\<rparr>],
        s_count = 2, cout = []\<rparr>)
 \<and> (1::nat) \<noteq> 0
 \<and> objects \<lparr>objects = [0 \<mapsto> \<lparr>available_m = Finite 15, present_m = Finite 30\<rparr>,
                       1 \<mapsto> \<lparr>available_m = Finite 5, present_m = Finite 5\<rparr>],
            s_count = 2 :: 32 word, cout = []\<rparr> 1
     = Some \<lparr>available_m = Finite 5, present_m = Finite 5\<rparr>"
proof -
  let ?w = "\<lparr>objects = [0 \<mapsto> \<lparr>available_m = Finite 10, present_m = Finite 20\<rparr>,
                        1 \<mapsto> \<lparr>available_m = Finite 5, present_m = Finite 5\<rparr>],
             s_count = 2 :: 32 word, cout = []\<rparr>"
  let ?w' = "\<lparr>objects = [0 \<mapsto> \<lparr>available_m = Finite 15, present_m = Finite 30\<rparr>,
                         1 \<mapsto> \<lparr>available_m = Finite 5, present_m = Finite 5\<rparr>],
              s_count = 2 :: 32 word, cout = []\<rparr>"
  have h: "call_setAccount 0 (Finite 15) (Finite 30) ?w = Some (Inr (), ?w')"
    by (simp add: call_setAccount_def setAccount_def minimums dgt_def fun_upd_twist)
  from setAccount_frame [OF h] h show ?thesis by simp
qed

section \<open>The counter of live instances\<close>

lemma run_append:
  "run (xs @ ys) w = (case run xs w of None \<Rightarrow> None | Some w' \<Rightarrow> run ys w')"
  by (induction xs arbitrary: w) (simp_all split: option.splits)

lemma constructed_Cons:
  "constructed (c # cs) = (if is_construction c then 1 else 0) + constructed cs"
  by (simp add: constructed_def)

lemma destroyed_Cons:
  "destroyed (c # cs) = (if is_destruction c then 1 else 0) + destroyed cs"
  by (simp add: destroyed_def)

lemma BankAccount_values_world:
  "\<exists>obj out. snd (BankAccount_values this a p w)
     = w\<lparr>objects := (objects w)(this \<mapsto> obj), s_count := s_count w + 1, cout := out\<rparr>"
proof (cases "setAccount a p member_init")
  case (Pair r obj)
  show ?thesis
  proof (cases r)
    case (Inl ex)
    with Pair show ?thesis
      by (simp add: BankAccount_values_def) blast
  next
    case (Inr u)
    with Pair have "snd (BankAccount_values this a p w)
      = w\<lparr>objects := (objects w)(this \<mapsto> obj), s_count := s_count w + 1, cout := cout w\<rparr>"
      by (simp add: BankAccount_values_def)
    then show ?thesis by blast
  qed
qed

text \<open>What one operation does to the set of live objects and to the counter.\<close>

lemma step_construction:
  assumes "step c w = Some w'" and "is_construction c"
  shows "\<exists>this. this \<notin> dom (objects w) \<and> dom (objects w') = insert this (dom (objects w))
            \<and> s_count w' = s_count w + 1"
proof (cases c)
  case (Construct this)
  with assms(1) have "this \<notin> dom (objects w)
      \<and> dom (objects w') = insert this (dom (objects w)) \<and> s_count w' = s_count w + 1"
    by (auto simp: BankAccount_default_def split: if_splits)
  then show ?thesis by blast
next
  case (ConstructValues this a p)
  from BankAccount_values_world [of this a p w] obtain obj out where
    "snd (BankAccount_values this a p w)
     = w\<lparr>objects := (objects w)(this \<mapsto> obj), s_count := s_count w + 1, cout := out\<rparr>"
    by blast
  moreover from assms(1) ConstructValues have "objects w this = None"
    and "w' = snd (BankAccount_values this a p w)"
    by (simp_all split: if_splits)
  ultimately have "this \<notin> dom (objects w)
      \<and> dom (objects w') = insert this (dom (objects w)) \<and> s_count w' = s_count w + 1"
    by (simp add: domIff)
  then show ?thesis by blast
next
  case (ConstructCopy this other)
  with assms(1) have "this \<notin> dom (objects w)
      \<and> dom (objects w') = insert this (dom (objects w)) \<and> s_count w' = s_count w + 1"
    by (auto simp: BankAccount_copy_def split: if_splits option.splits)
  then show ?thesis by blast
next
  case (ConstructMove this other)
  with assms(1) have "this \<notin> dom (objects w)
      \<and> dom (objects w') = insert this (dom (objects w)) \<and> s_count w' = s_count w + 1"
    by (auto simp: BankAccount_move_def split: if_splits option.splits)
  then show ?thesis by blast
next
  case (Destroy this)
  with assms(2) show ?thesis by simp
next
  case (SetAccount this a p)
  with assms(2) show ?thesis by simp
qed

lemma step_destruction:
  assumes "step c w = Some w'" and "is_destruction c"
  shows "\<exists>this. this \<in> dom (objects w) \<and> dom (objects w') = dom (objects w) - {this}
            \<and> s_count w' = s_count w - 1"
proof -
  from assms(2) obtain this where c: "c = Destroy this" by (cases c) simp_all
  with assms(1) have "this \<in> dom (objects w)
      \<and> dom (objects w') = dom (objects w) - {this} \<and> s_count w' = s_count w - 1"
    by (auto simp: BankAccount_destroy_def split: if_splits)
  then show ?thesis by blast
qed

lemma step_setAccount:
  assumes "step c w = Some w'" and "\<not> is_construction c" and "\<not> is_destruction c"
  shows "dom (objects w') = dom (objects w) \<and> s_count w' = s_count w"
proof -
  from assms(2,3) obtain this a p where c: "c = SetAccount this a p" by (cases c) simp_all
  from assms(1) c obtain obj where o: "objects w this = Some obj"
    by (auto simp: call_setAccount_def split: option.splits)
  obtain r obj' where s: "setAccount a p obj = (r, obj')" by (cases "setAccount a p obj")
  from assms(1) c o s have "w' = w\<lparr>objects := (objects w)(this \<mapsto> obj')\<rparr>"
    by (simp add: call_setAccount_def)
  with o show ?thesis by auto
qed


lemma step_counts:
  assumes "step c w = Some w'" and "finite (dom (objects w))"
  shows "finite (dom (objects w'))
       \<and> card (dom (objects w')) + (if is_destruction c then 1 else 0)
           = card (dom (objects w)) + (if is_construction c then 1 else 0)
       \<and> s_count w' + (if is_destruction c then 1 else 0)
           = s_count w + (if is_construction c then 1 else 0)"
proof -
  consider (new) "is_construction c" "\<not> is_destruction c"
    | (del) "is_destruction c" "\<not> is_construction c"
    | (set) "\<not> is_construction c" "\<not> is_destruction c"
    by (cases c) simp_all
  then show ?thesis
  proof cases
    case new
    from step_construction [OF assms(1) new(1)] obtain this where
      "this \<notin> dom (objects w)" "dom (objects w') = insert this (dom (objects w))"
      "s_count w' = s_count w + 1" by blast
    with assms(2) new show ?thesis by simp
  next
    case del
    from step_destruction [OF assms(1) del(1)] obtain this where
      t: "this \<in> dom (objects w)" "dom (objects w') = dom (objects w) - {this}"
      "s_count w' = s_count w - 1" by blast
    from assms(2) t(1) have "Suc (card (dom (objects w) - {this})) = card (dom (objects w))"
      by (rule card_Suc_Diff1)
    then have c: "card (dom (objects w')) + 1 = card (dom (objects w))"
      by (simp only: t(2) Suc_eq_plus1)
    from assms(2) have f: "finite (dom (objects w'))"
      by (simp only: t(2) finite_Diff)
    have k: "s_count w' + 1 = s_count w"
      by (simp only: t(3) diff_add_cancel)
    from del c f k show ?thesis by (simp only: if_True if_False add_0_right)
  next
    case set
    from step_setAccount [OF assms(1) set] assms(2) set show ?thesis by simp
  qed
qed

lemma run_counts:
  assumes "run cs w = Some w'" and "finite (dom (objects w))"
  shows "finite (dom (objects w'))
       \<and> card (dom (objects w')) + destroyed cs = card (dom (objects w)) + constructed cs
       \<and> s_count w' + word_of_nat (destroyed cs) = s_count w + word_of_nat (constructed cs)"
  using assms
proof (induction cs arbitrary: w)
  case Nil
  then show ?case by (simp add: constructed_def destroyed_def)
next
  case (Cons c cs)
  then obtain w1 where s: "step c w = Some w1" and r: "run cs w1 = Some w'"
    by (auto split: option.splits)
  from step_counts [OF s Cons.prems(2)] have
    sc1: "finite (dom (objects w1))" and
    sc2: "card (dom (objects w1)) + (if is_destruction c then 1 else 0)
           = card (dom (objects w)) + (if is_construction c then 1 else 0)" and
    sc3: "s_count w1 + (if is_destruction c then 1 else 0)
           = s_count w + (if is_construction c then 1 else 0)"
    by blast+
  from Cons.IH [OF r sc1] have
    ih1: "finite (dom (objects w'))" and
    ih2: "card (dom (objects w')) + destroyed cs = card (dom (objects w1)) + constructed cs" and
    ih3: "s_count w' + word_of_nat (destroyed cs) = s_count w1 + word_of_nat (constructed cs)"
    by blast+
  from ih2 sc2 have c: "card (dom (objects w')) + destroyed (c # cs)
      = card (dom (objects w)) + constructed (c # cs)"
    by (simp add: constructed_Cons destroyed_Cons)
  have "s_count w' + word_of_nat (destroyed (c # cs))
      = (s_count w' + word_of_nat (destroyed cs)) + (if is_destruction c then 1 else 0)"
    by (simp add: destroyed_Cons)
  also have "\<dots> = (s_count w1 + (if is_destruction c then 1 else 0))
      + word_of_nat (constructed cs)"
    by (simp only: ih3 add.assoc add.commute add.left_commute)
  also have "\<dots> = s_count w + word_of_nat (constructed (c # cs))"
    by (simp add: sc3 constructed_Cons)
  finally have k: "s_count w' + word_of_nat (destroyed (c # cs))
      = s_count w + word_of_nat (constructed (c # cs))" .
  from ih1 c k show ?case by blast
qed


lemma run_world0_counts:
  assumes "run cs world0 = Some w"
  shows "destroyed cs \<le> constructed cs"
    and "card (dom (objects w)) = constructed cs - destroyed cs"
    and "s_count w = word_of_nat (constructed cs - destroyed cs)"
proof -
  have f: "finite (dom (objects world0))" by (simp add: world0_def)
  from run_counts [OF assms f] have
    c: "card (dom (objects w)) + destroyed cs = constructed cs" and
    k: "s_count w + word_of_nat (destroyed cs) = word_of_nat (constructed cs)"
    by (simp_all add: world0_def)
  from c show le: "destroyed cs \<le> constructed cs" by arith
  from c show "card (dom (objects w)) = constructed cs - destroyed cs" by arith
  from k have "s_count w = word_of_nat (constructed cs) - word_of_nat (destroyed cs)"
    by (simp only: eq_diff_eq)
  also from le have "\<dots> = word_of_nat (constructed cs - destroyed cs)"
    by (simp only: of_nat_diff)
  finally show "s_count w = word_of_nat (constructed cs - destroyed cs)" .
qed

lemma within_int_iff:
  "within_int cs \<longleftrightarrow>
     (\<forall>j \<le> length cs. constructed (take j cs) - destroyed (take j cs) \<le> INT_MAX)"
proof -
  have "set [0 ..< Suc (length cs)] = {j. j \<le> length cs}"
    by (simp only: set_upt) auto
  then show ?thesis
    by (simp only: within_int_def list_all_iff Ball_def mem_Collect_eq)
qed

lemma within_int_end: "within_int cs \<Longrightarrow> constructed cs - destroyed cs \<le> INT_MAX"
proof -
  assume "within_int cs"
  then have "constructed (take (length cs) cs) - destroyed (take (length cs) cs) \<le> INT_MAX"
    by (simp only: within_int_iff)
  then show ?thesis by simp
qed

lemma live_counter_end:
  assumes "run cs world0 = Some w" and "within_int cs"
  shows "destroyed cs \<le> constructed cs
       \<and> getObjectCount w = int (constructed cs) - int (destroyed cs)
       \<and> getObjectCount w = int (card (dom (objects w)))
       \<and> 0 \<le> getObjectCount w"
proof -
  note r = run_world0_counts [OF assms(1)]
  from within_int_end [OF assms(2)] have "constructed cs - destroyed cs \<le> 2147483647"
    by (simp only: INT_MAX_def)
  then have "sint (word_of_nat (constructed cs - destroyed cs) :: 32 word)
      = int (constructed cs - destroyed cs)"
    by (rule sint_of_nat_32)
  then have g: "getObjectCount w = int (constructed cs - destroyed cs)"
    by (simp only: getObjectCount_def r(3))
  from g r(1) have "getObjectCount w = int (constructed cs) - int (destroyed cs)"
    by (simp only: of_nat_diff)
  moreover from g r(2) have "getObjectCount w = int (card (dom (objects w)))"
    by simp
  moreover from g have "0 \<le> getObjectCount w" by simp
  ultimately show ?thesis using r(1) by blast
qed

lemma run_prefix:
  assumes "run cs w = Some w'"
  shows "\<exists>w1. run (take k cs) w = Some w1"
proof -
  from assms have "run (take k cs @ drop k cs) w = Some w'" by simp
  then show ?thesis
    by (auto simp only: run_append split: option.splits)
qed

lemma within_int_take:
  assumes "within_int cs"
  shows "within_int (take k cs)"
proof -
  from assms have a: "\<forall>j \<le> length cs.
      constructed (take j cs) - destroyed (take j cs) \<le> INT_MAX"
    by (simp only: within_int_iff)
  have "\<forall>j \<le> length (take k cs).
      constructed (take j (take k cs)) - destroyed (take j (take k cs)) \<le> INT_MAX"
  proof (intro allI impI)
    fix j assume "j \<le> length (take k cs)"
    then have "j \<le> k" "j \<le> length cs" by simp_all
    then have "take j (take k cs) = take j cs" by (simp add: min_def)
    with a \<open>j \<le> length cs\<close>
    show "constructed (take j (take k cs)) - destroyed (take j (take k cs)) \<le> INT_MAX"
      by simp
  qed
  then show ?thesis
    by (simp only: within_int_iff)
qed

text \<open>
  Claim C6, as amended. For every sequence of operations that the program can perform
  from its start, constructing N instances (by any of the four constructors) and
  destroying M of them, in which the number of live instances never exceeds
  \<open>INT_MAX = 2147483647\<close>: M is at most N, \<open>getObjectCount\<close> returns N - M, which is
  the number of live objects and is not negative; the same holds after every prefix
  of the sequence.
\<close>

theorem live_counter:
  assumes "run cs world0 = Some w" and "within_int cs"
  shows "destroyed cs \<le> constructed cs
       \<and> getObjectCount w = int (constructed cs) - int (destroyed cs)
       \<and> getObjectCount w = int (card (dom (objects w)))
       \<and> 0 \<le> getObjectCount w
       \<and> (\<forall>k \<le> length cs. \<exists>wk. run (take k cs) world0 = Some wk
             \<and> getObjectCount wk
                 = int (constructed (take k cs)) - int (destroyed (take k cs))
             \<and> 0 \<le> getObjectCount wk)"
proof -
  have "\<exists>wk. run (take k cs) world0 = Some wk
             \<and> getObjectCount wk
                 = int (constructed (take k cs)) - int (destroyed (take k cs))
             \<and> 0 \<le> getObjectCount wk" for k
  proof -
    from run_prefix [OF assms(1)] obtain wk where wk: "run (take k cs) world0 = Some wk"
      by blast
    from live_counter_end [OF wk within_int_take [OF assms(2)]] wk show ?thesis by blast
  qed
  with live_counter_end [OF assms] show ?thesis by blast
qed

theorem live_counter_witness:
  "map_option getObjectCount
     (run [ConstructValues 0 (Finite 10) (Finite 20), ConstructCopy 1 0, Construct 2, Destroy 0]
        world0) = Some 2
 \<and> within_int
     [ConstructValues 0 (Finite 10) (Finite 20), ConstructCopy 1 0, Construct 2, Destroy 0]"
proof -
  let ?cs = "[ConstructValues 0 (Finite 10) (Finite 20), ConstructCopy 1 0, Construct 2,
              Destroy 0]"
  have "run ?cs world0 \<noteq> None"
    by (simp add: world0_def BankAccount_values_def BankAccount_copy_def
        BankAccount_default_def BankAccount_destroy_def setAccount_def member_init_def
        minimums dgt_def)
  then obtain w where h1: "run ?cs world0 = Some w" by blast
  have h2: "within_int ?cs"
    by (simp add: within_int_def constructed_def destroyed_def INT_MAX_def upt_rec)
  have n: "int (constructed ?cs) - int (destroyed ?cs) = 2"
    by (simp add: constructed_def destroyed_def)
  from live_counter [OF h1 h2] n h1 h2 show ?thesis by simp
qed

text \<open>The counter after \<open>n\<close> default constructions at the addresses below \<open>n\<close>.\<close>

lemma run_constructs:
  "\<exists>w. run (map Construct [0 ..< n]) world0 = Some w
      \<and> dom (objects w) = {0 ..< n} \<and> s_count w = word_of_nat n"
proof (induction n)
  case 0
  show ?case by (simp add: world0_def)
next
  case (Suc n)
  then obtain w where w: "run (map Construct [0 ..< n]) world0 = Some w"
    "dom (objects w) = {0 ..< n}" "s_count w = word_of_nat n" by blast
  from w(2) have fresh: "objects w n = None" by (auto simp: domIff [symmetric] simp del: domIff)
  let ?w' = "snd (BankAccount_default n w)"
  from w(1) fresh have "run (map Construct [0 ..< Suc n]) world0 = Some ?w'"
    by (simp add: run_append)
  moreover from w(2) have "dom (objects ?w') = {0 ..< Suc n}"
    by (auto simp: BankAccount_default_def)
  moreover from w(3) have "s_count ?w' = word_of_nat (Suc n)"
    by (simp add: BankAccount_default_def)
  ultimately show ?case by blast
qed

lemma counter_after_constructs:
  "map_option getObjectCount (run (map Construct [0 ..< n]) world0)
     = Some (sint (word_of_nat n :: 32 word))"
proof -
  from run_constructs [of n] obtain w where
    "run (map Construct [0 ..< n]) world0 = Some w" "s_count w = word_of_nat n" by blast
  then show ?thesis by (simp add: getObjectCount_def)
qed

lemma constructed_constructs: "constructed (map Construct [0 ..< n]) = n"
  by (simp add: constructed_def filter_map comp_def)

lemma destroyed_constructs: "destroyed (map Construct [0 ..< n]) = 0"
  by (simp add: destroyed_def filter_map comp_def)

text \<open>
  Claim C6, as stated, has no bound on the number of live instances. The counter is
  an \<^verbatim>\<open>int\<close>: after 2147483648 constructions and no destruction it reads
  -2147483648, which is negative and is not N - M.
\<close>

theorem live_counter_overflow:
  "map_option getObjectCount (run (map Construct [0 ..< 2147483648]) world0)
     = Some (- 2147483648)
 \<and> constructed (map Construct [0 ..< 2147483648]) = 2147483648
 \<and> destroyed (map Construct [0 ..< 2147483648]) = 0"
proof -
  have e: "sint (word_of_nat 2147483648 :: 32 word) = - 2147483648" by simp
  show ?thesis
    by (simp only: counter_after_constructs constructed_constructs destroyed_constructs e)
qed

end
